theory Spec2Isabelle
  imports Main "HOL-Library.FSet"
begin

section \<open>Common vocabulary\<close>

text \<open>
  A \<open>Player\<close> object is compared by reference only (\<open>player == this.lobby.host\<close>), so it
  is modelled by an opaque identity.
\<close>

type_synonym player = nat

section \<open>JavaScript numbers\<close>

text \<open>
  A JavaScript number is an IEEE 754 double: a finite value, which is a rational, one of
  the two infinities, or NaN. (The sign of zero is not represented: nothing below can tell
  the two zeros apart.) \<open>to_double\<close> gives the double nearest to a rational: round to
  nearest, ties to even, 53 significant bits, a fixed quantum of \<open>2 powi -1074\<close> below
  \<open>2 powi -1022\<close>, and infinity from \<open>2 ^ 1024\<close> on. It is how a decimal of the
  configuration is read as a number, and how \<open>*\<close> rounds the exact product of two
  doubles.
\<close>

datatype number = Finite rat | PlusInfinity | MinusInfinity | NaN

text \<open>The number of binary digits of a natural number.\<close>

fun bits :: "nat \<Rightarrow> nat" where
  "bits n = (if n = 0 then 0 else Suc (bits (n div 2)))"

text \<open>For \<open>0 < x\<close>, the integer \<open>e\<close> with \<open>2 powi e \<le> x < 2 powi (e + 1)\<close>.\<close>

definition exponent :: "rat \<Rightarrow> int" where
  "exponent x =
     (if 1 \<le> x then int (bits (nat \<lfloor>x\<rfloor>)) - 1
      else - int (bits (nat (\<lceil>1 / x\<rceil> - 1))))"

definition round_half_even :: "rat \<Rightarrow> int" where
  "round_half_even y =
     (let f = \<lfloor>y\<rfloor>; d = y - of_int f
      in if d < 1 / 2 then f else if 1 / 2 < d then f + 1 else if even f then f else f + 1)"

text \<open>The distance between neighbouring doubles around \<open>x\<close>.\<close>

definition quantum :: "rat \<Rightarrow> rat" where
  "quantum x = 2 powi (max (exponent x) (- 1022) - 52)"

definition round_positive :: "rat \<Rightarrow> number" where
  "round_positive x =
     (let r = of_int (round_half_even (x / quantum x)) * quantum x
      in if 2 ^ 1024 \<le> r then PlusInfinity else Finite r)"

fun negate :: "number \<Rightarrow> number" where
  "negate (Finite x) = Finite (- x)"
| "negate PlusInfinity = MinusInfinity"
| "negate MinusInfinity = PlusInfinity"
| "negate NaN = NaN"

definition to_double :: "rat \<Rightarrow> number" where
  "to_double x =
     (if x = 0 then Finite 0
      else if 0 < x then round_positive x
      else negate (round_positive (- x)))"

fun is_negative :: "number \<Rightarrow> bool" where
  "is_negative (Finite x) = (x < 0)"
| "is_negative MinusInfinity = True"
| "is_negative PlusInfinity = False"
| "is_negative NaN = False"

text \<open>
  The operator \<open>*\<close>: the exact product rounded to a double; NaN for a NaN operand and
  for zero times infinity; otherwise an infinity with the sign of the product.
\<close>

definition js_times :: "number \<Rightarrow> number \<Rightarrow> number" where
  "js_times a b =
     (case (a, b) of
        (Finite x, Finite y) \<Rightarrow> to_double (x * y)
      | _ \<Rightarrow>
          if a = NaN \<or> b = NaN \<or> a = Finite 0 \<or> b = Finite 0 then NaN
          else if is_negative a = is_negative b then PlusInfinity
          else MinusInfinity)"

text \<open>The operator \<open><=\<close>: false whenever an operand is NaN.\<close>

fun js_le :: "number \<Rightarrow> number \<Rightarrow> bool" where
  "js_le NaN b = False"
| "js_le a NaN = False"
| "js_le MinusInfinity b = True"
| "js_le a PlusInfinity = True"
| "js_le (Finite x) (Finite y) = (x \<le> y)"
| "js_le PlusInfinity b = False"
| "js_le a MinusInfinity = False"

definition Math_max :: "number \<Rightarrow> number \<Rightarrow> number" where
  "Math_max a b = (if a = NaN \<or> b = NaN then NaN else if js_le a b then b else a)"

fun Math_ceil :: "number \<Rightarrow> number" where
  "Math_ceil (Finite x) = Finite (of_int \<lceil>x\<rceil>)"
| "Math_ceil PlusInfinity = PlusInfinity"
| "Math_ceil MinusInfinity = MinusInfinity"
| "Math_ceil NaN = NaN"

text \<open>The \<open>size\<close> of a \<open>Set\<close>, an integer far below \<open>2 ^ 53\<close>, as a number.\<close>

definition set_size :: "'a fset \<Rightarrow> number" where
  "set_size A = Finite (of_nat (fcard A))"

section \<open>MapRecaster\<close>

text \<open>
  The plugin holds one flag, \<open>canRecast\<close>, initially \<open>true\<close>. Of the lobby it reads
  \<open>mapId\<close> and calls \<open>SendMessage\<close>; the calls are collected, in order, in \<open>sent\<close>.
  The text sent is \<open>"!mp map " + this.lobby.mapId\<close>; \<open>number_text\<close> is the decimal
  rendering of a non-negative integer, which is what the concatenation yields for a map id.
\<close>

datatype BanchoResponseType = BeatmapChanged | OtherResponse nat

record MapRecaster =
  canRecast :: bool
  mapId :: nat
  sent :: "string list"

fun number_text :: "nat \<Rightarrow> string" where
  "number_text n =
     (if n < 10 then [char_of (48 + n)]
      else number_text (n div 10) @ [char_of (48 + n mod 10)])"

definition SendMessage_recast :: "string \<Rightarrow> MapRecaster \<Rightarrow> MapRecaster" where
  "SendMessage_recast m s = s\<lparr>sent := sent s @ [m]\<rparr>"

definition new_MapRecaster :: "nat \<Rightarrow> MapRecaster" where
  "new_MapRecaster mid = \<lparr>canRecast = True, mapId = mid, sent = []\<rparr>"

definition onReceivedBanchoResponse :: "BanchoResponseType \<Rightarrow> MapRecaster \<Rightarrow> MapRecaster" where
  "onReceivedBanchoResponse ty s =
     (if ty = BeatmapChanged then s\<lparr>canRecast := True\<rparr> else s)"

definition onReceivedChatCommand :: "string \<Rightarrow> string \<Rightarrow> player \<Rightarrow> MapRecaster \<Rightarrow> MapRecaster" where
  "onReceivedChatCommand command param player s =
     (if command = ''!update'' then
        (if canRecast s then
           SendMessage_recast (''!mp map '' @ number_text (mapId s)) (s\<lparr>canRecast := False\<rparr>)
         else s)
      else s)"

text \<open>
  The two subscriptions of \<open>registerEvents\<close> as events, and the plugin run over a
  sequence of them. A selection window is a run with no beatmap-changed response in it.
\<close>

datatype recast_event =
    ReceivedChatCommand string string player
  | ReceivedBanchoResponse BanchoResponseType

fun recast_step :: "recast_event \<Rightarrow> MapRecaster \<Rightarrow> MapRecaster" where
  "recast_step (ReceivedChatCommand c prm pl) s = onReceivedChatCommand c prm pl s"
| "recast_step (ReceivedBanchoResponse ty) s = onReceivedBanchoResponse ty s"

fun recast_run :: "recast_event list \<Rightarrow> MapRecaster \<Rightarrow> MapRecaster" where
  "recast_run [] s = s"
| "recast_run (e # es) s = recast_run es (recast_step e s)"

section \<open>VoteCounter\<close>

text \<open>
  Modelled from the spec: \<open>VoteCounter\<close>, the class in which \<open>MatchAborter\<close> keeps its
  votes; its file is not among the sources. Its state and the operations \<open>MatchAborter\<close>
  calls follow the specification's QuorumVoter: a roster of eligible voters, the set of
  votes cast, and the policy \<open>rate\<close> and \<open>minimum\<close> given to the constructor.
\<close>

record VoteCounter =
  rate :: rat
  minimum :: rat
  roster :: "player fset"
  voteSet :: "player fset"

definition new_VoteCounter :: "rat \<Rightarrow> rat \<Rightarrow> VoteCounter" where
  \<comment> \<open>Modelled from the spec: the constructor of the missing class; Roster and VoteSet are
      created empty at plugin construction.\<close>
  "new_VoteCounter r m = \<lparr>rate = r, minimum = m, roster = {||}, voteSet = {||}\<rparr>"

definition setRoster :: "player fset \<Rightarrow> VoteCounter \<Rightarrow> VoteCounter" where
  \<comment> \<open>Modelled from the spec: \<open>setRoster\<close> of the missing class; replaces Roster, and any
      participant not in the new Roster has its vote removed.\<close>
  "setRoster ps v = v\<lparr>roster := ps, voteSet := voteSet v |\<inter>| ps\<rparr>"

definition RemoveAllVoters :: "VoteCounter \<Rightarrow> VoteCounter" where
  \<comment> \<open>Modelled from the spec: \<open>RemoveAllVoters\<close> of the missing class, as \<open>setRoster\<close> of
      the empty roster.\<close>
  "RemoveAllVoters v = setRoster {||} v"

definition AddVoter :: "player \<Rightarrow> VoteCounter \<Rightarrow> VoteCounter" where
  \<comment> \<open>Modelled from the spec: \<open>AddVoter\<close> of the missing class, as \<open>setRoster\<close> of the
      roster with one more participant.\<close>
  "AddVoter p v = setRoster (finsert p (roster v)) v"

definition RemoveVoter :: "player \<Rightarrow> VoteCounter \<Rightarrow> VoteCounter" where
  \<comment> \<open>Modelled from the spec: \<open>removeParticipant\<close>; removes from Roster and VoteSet, a no-op
      if absent.\<close>
  "RemoveVoter p v = v\<lparr>roster := roster v |-| {|p|}, voteSet := voteSet v |-| {|p|}\<rparr>"

definition Clear :: "VoteCounter \<Rightarrow> VoteCounter" where
  \<comment> \<open>Modelled from the spec: \<open>clearVotes\<close>; empties VoteSet, keeps Roster untouched.\<close>
  "Clear v = v\<lparr>voteSet := {||}\<rparr>"

definition Vote :: "player \<Rightarrow> VoteCounter \<Rightarrow> bool \<times> VoteCounter" where
  \<comment> \<open>Modelled from the spec: \<open>castVote\<close>; accepted iff the participant is in Roster and
      not in VoteSet.\<close>
  "Vote p v =
     (if p |\<in>| roster v \<and> p |\<notin>| voteSet v then (True, v\<lparr>voteSet := finsert p (voteSet v)\<rparr>)
      else (False, v))"

definition count :: "VoteCounter \<Rightarrow> nat" where
  \<comment> \<open>Modelled from the spec: the \<open>count\<close> getter of the missing class, the size of VoteSet.\<close>
  "count v = fcard (voteSet v)"

definition threshold :: "VoteCounter \<Rightarrow> int" where
  \<comment> \<open>Modelled from the spec: \<open>threshold\<close>; \<open>ceil(max(|Roster| * rate, minimum))\<close>.\<close>
  "threshold v = \<lceil>max (of_nat (fcard (roster v)) * rate v) (minimum v)\<rceil>"

definition passed :: "VoteCounter \<Rightarrow> bool" where
  \<comment> \<open>Modelled from the spec: \<open>passed\<close>; \<open>|VoteSet| > 0 AND |VoteSet| \<ge> threshold()\<close>.\<close>
  "passed v = (0 < count v \<and> threshold v \<le> int (count v))"

section \<open>MatchAborter\<close>

text \<open>
  The rates and the minimum are held as the decimals written in the configuration; the
  plugin sees them as JavaScript numbers, that is through \<open>to_double\<close>, and computes with
  them in double arithmetic. The delay is a natural number of milliseconds.
\<close>

record MatchAborterOption =
  vote_rate :: rat
  vote_min :: rat
  auto_abort_rate :: rat
  auto_abort_delay_ms :: nat

text \<open>
  What the plugin reads of its lobby. The lobby is the host's object: the plugin never
  writes to it, it only calls \<open>AbortMatch\<close> and \<open>SendMessage\<close> on it. The calls are
  recorded, not interpreted: what the lobby does with them reaches the plugin as later
  events.
\<close>

record ILobby =
  isMatching :: bool
  players :: "player fset"
  playersInGame :: "player fset"
  playersFinished :: "player fset"
  host :: "player option"

text \<open>
  The calls made on the lobby, in order. \<open>SendMessage v\<close> stands for the message
  \<open>bot : match abort progress: ...\<close>, whose text is built from the voting state \<open>v\<close>.
\<close>

datatype lobby_call = AbortMatch | SendMessage VoteCounter

type_synonym handle = nat

text \<open>
  The fields of the class (\<open>option\<close>, \<open>abortTimer\<close>, \<open>voting\<close>, \<open>lobby\<close>) together with
  the part of the runtime that \<open>setTimeout\<close> and \<open>clearTimeout\<close> act on: \<open>timers\<close> maps
  the handle of every pending timeout to the time it falls due, \<open>timer_seq\<close> is the next
  handle \<open>setTimeout\<close> returns, \<open>clock\<close> is the current time in milliseconds.
\<close>

record MatchAborter =
  option :: MatchAborterOption
  abortTimer :: "handle option"
  voting :: VoteCounter
  lobby :: ILobby
  timers :: "handle \<rightharpoonup> nat"
  timer_seq :: handle
  clock :: nat
  calls :: "lobby_call list"

definition new_MatchAborter :: "ILobby \<Rightarrow> MatchAborterOption \<Rightarrow> MatchAborter" where
  "new_MatchAborter l opt =
     \<lparr>option = opt, abortTimer = None,
      voting = new_VoteCounter (vote_rate opt) (vote_min opt),
      lobby = l, timers = Map.empty, timer_seq = 0, clock = 0, calls = []\<rparr>"

definition lobby_AbortMatch :: "MatchAborter \<Rightarrow> MatchAborter" where
  "lobby_AbortMatch s = s\<lparr>calls := calls s @ [AbortMatch]\<rparr>"

definition lobby_SendMessage :: "VoteCounter \<Rightarrow> MatchAborter \<Rightarrow> MatchAborter" where
  "lobby_SendMessage v s = s\<lparr>calls := calls s @ [SendMessage v]\<rparr>"

definition clearTimeout :: "handle \<Rightarrow> MatchAborter \<Rightarrow> MatchAborter" where
  "clearTimeout h s = s\<lparr>timers := (timers s)(h := None)\<rparr>"

text \<open>
  The delay \<open>setTimeout\<close> really uses: the runtime replaces a delay below 1 or above
  \<open>TIMEOUT_MAX\<close> by 1.
\<close>

definition TIMEOUT_MAX :: nat where
  "TIMEOUT_MAX = 2147483647"

definition timeout_after :: "nat \<Rightarrow> nat" where
  "timeout_after delay = (if delay < 1 \<or> TIMEOUT_MAX < delay then 1 else delay)"

definition setTimeout :: "nat \<Rightarrow> MatchAborter \<Rightarrow> handle \<times> MatchAborter" where
  "setTimeout delay s =
     (timer_seq s,
      s\<lparr>timers := (timers s)(timer_seq s \<mapsto> clock s + timeout_after delay),
        timer_seq := Suc (timer_seq s)\<rparr>)"

definition stopTimer :: "MatchAborter \<Rightarrow> MatchAborter" where
  "stopTimer s =
     (case abortTimer s of
        Some h \<Rightarrow> (clearTimeout h s)\<lparr>abortTimer := None\<rparr>
      | None \<Rightarrow> s)"

definition doAbort :: "MatchAborter \<Rightarrow> MatchAborter" where
  "doAbort s = lobby_AbortMatch (stopTimer s)"

definition startTimer :: "MatchAborter \<Rightarrow> MatchAborter" where
  "startTimer s =
     (if auto_abort_delay_ms (option s) = 0 then s
      else (case setTimeout (auto_abort_delay_ms (option s)) (stopTimer s) of
              (h, s') \<Rightarrow> s'\<lparr>abortTimer := Some h\<rparr>))"

definition abortTimerAction :: "MatchAborter \<Rightarrow> MatchAborter" where
  \<comment> \<open>the closure given to \<open>setTimeout\<close>\<close>
  "abortTimerAction s = (if abortTimer s \<noteq> None then doAbort s else s)"

definition voteRequired :: "MatchAborter \<Rightarrow> number" where
  "voteRequired s =
     Math_ceil (Math_max
       (js_times (set_size (playersInGame (lobby s))) (to_double (vote_rate (option s))))
       (to_double (vote_min (option s))))"

definition autoAbortRequired :: "MatchAborter \<Rightarrow> number" where
  "autoAbortRequired s =
     Math_ceil
       (js_times (set_size (playersInGame (lobby s))) (to_double (auto_abort_rate (option s))))"

definition checkAutoAbort :: "MatchAborter \<Rightarrow> MatchAborter" where
  "checkAutoAbort s =
     (if abortTimer s = None then
        (if js_le (autoAbortRequired s) (set_size (playersFinished (lobby s))) then startTimer s
         else s)
      else s)"

definition checkVoteCount :: "bool \<Rightarrow> MatchAborter \<Rightarrow> MatchAborter" where
  "checkVoteCount showMessage s =
     (let s1 = (if count (voting s) \<noteq> 0 \<and> showMessage then lobby_SendMessage (voting s) s
                else s)
      in if passed (voting s1) then doAbort s1 else s1)"

definition vote :: "player \<Rightarrow> MatchAborter \<Rightarrow> MatchAborter" where
  "vote player s =
     (if passed (voting s) then s
      else (case Vote player (voting s) of
              (accepted, v) \<Rightarrow>
                if accepted then checkVoteCount True (s\<lparr>voting := v\<rparr>)
                else s\<lparr>voting := v\<rparr>))"

definition onPlayerLeft :: "player \<Rightarrow> MatchAborter \<Rightarrow> MatchAborter" where
  "onPlayerLeft player s =
     (if \<not> isMatching (lobby s) then s
      else
        let s1 = s\<lparr>voting := RemoveVoter player (voting s)\<rparr>;
            s2 = checkVoteCount False s1;
            s3 = checkAutoAbort s2
        in if fcard (players (lobby s3)) = 0
           then stopTimer (s3\<lparr>voting := Clear (voting s3)\<rparr>)
           else s3)"

definition onMatchStarted :: "MatchAborter \<Rightarrow> MatchAborter" where
  \<comment> \<open>the loop adds every player of the lobby; the roster is a set, so the order in which
      they are enumerated does not show\<close>
  "onMatchStarted s =
     s\<lparr>voting := fold AddVoter (sorted_list_of_fset (players (lobby s)))
                    (RemoveAllVoters (voting s))\<rparr>"

definition onPlayerFinished :: "player \<Rightarrow> int \<Rightarrow> bool \<Rightarrow> nat \<Rightarrow> nat \<Rightarrow> MatchAborter \<Rightarrow> MatchAborter" where
  "onPlayerFinished player score isPassed nFinished nInGame s = checkAutoAbort s"

definition onMatchFinished :: "MatchAborter \<Rightarrow> MatchAborter" where
  "onMatchFinished s = stopTimer s"

definition onCustomCommand :: "player \<Rightarrow> int \<Rightarrow> string \<Rightarrow> string \<Rightarrow> MatchAborter \<Rightarrow> MatchAborter" where
  "onCustomCommand player auth command param s =
     (if \<not> isMatching (lobby s) then s
      else if command = ''!abort'' then
        (if Some player = host (lobby s) then doAbort s else vote player s)
      else if 2 \<le> auth then
        (if command = ''*abort'' then doAbort s else s)
      else s)"

section \<open>Events\<close>

text \<open>
  The five subscriptions of \<open>registerEvents\<close> as events, and three events of the
  environment: the runtime running the callback of timeout \<open>h\<close> (which it does only for a
  timeout that is still pending and has fallen due, removing it from the table first), time
  passing, and the host changing its lobby object.
\<close>

datatype event =
    PlayerLeft player
  | MatchStarted
  | PlayerFinished player int bool nat nat
  | MatchFinished
  | ReceivedCustomCommand player int string string
  | TimerDue handle
  | Elapse nat
  | LobbyChanged ILobby

definition timerDue :: "handle \<Rightarrow> MatchAborter \<Rightarrow> MatchAborter" where
  "timerDue h s =
     (case timers s h of
        Some due \<Rightarrow>
          if due \<le> clock s then abortTimerAction (s\<lparr>timers := (timers s)(h := None)\<rparr>) else s
      | None \<Rightarrow> s)"

fun step :: "event \<Rightarrow> MatchAborter \<Rightarrow> MatchAborter" where
  "step (PlayerLeft p) s = onPlayerLeft p s"
| "step MatchStarted s = onMatchStarted s"
| "step (PlayerFinished p score isPassed nFinished nInGame) s =
     onPlayerFinished p score isPassed nFinished nInGame s"
| "step MatchFinished s = onMatchFinished s"
| "step (ReceivedCustomCommand p auth command param) s = onCustomCommand p auth command param s"
| "step (TimerDue h) s = timerDue h s"
| "step (Elapse ms) s = s\<lparr>clock := clock s + ms\<rparr>"
| "step (LobbyChanged l) s = s\<lparr>lobby := l\<rparr>"

fun run :: "event list \<Rightarrow> MatchAborter \<Rightarrow> MatchAborter" where
  "run [] s = s"
| "run (e # es) s = run es (step e s)"

text \<open>How many times \<open>AbortMatch\<close> has been called on the lobby.\<close>

definition abortCount :: "MatchAborter \<Rightarrow> nat" where
  "abortCount s = length (filter (\<lambda>c. c = AbortMatch) (calls s))"

section \<open>Auxiliary notions\<close>


text \<open>
  The invariant that ties the class to the runtime: the pending timeouts are exactly the
  one whose handle \<open>abortTimer\<close> holds, and every handle in use was returned by an earlier
  \<open>setTimeout\<close>. A handle is \<open>retired\<close> once it was returned, is no longer pending and is
  no longer held.
\<close>

definition timer_inv :: "MatchAborter \<Rightarrow> bool" where
  "timer_inv s =
     (dom (timers s) = set_option (abortTimer s) \<and> (\<forall>h \<in> dom (timers s). h < timer_seq s))"

definition retired :: "handle \<Rightarrow> MatchAborter \<Rightarrow> bool" where
  "retired h s = (h < timer_seq s \<and> timers s h = None \<and> abortTimer s \<noteq> Some h)"

section \<open>Example sessions\<close>

text \<open>
  A lobby of eight with the first player as host, the same lobby once seven have finished,
  a lobby everybody has left, and a lobby of five that shrinks to four.
\<close>

definition lobby8 :: ILobby where
  "lobby8 = \<lparr>isMatching = True, players = {|1, 2, 3, 4, 5, 6, 7, 8|},
     playersInGame = {|1, 2, 3, 4, 5, 6, 7, 8|}, playersFinished = {||}, host = Some 1\<rparr>"

definition lobby8_finishing :: ILobby where
  "lobby8_finishing = lobby8\<lparr>playersFinished := {|1, 2, 3, 4, 5, 6, 7|}\<rparr>"

definition lobby_deserted :: ILobby where
  "lobby_deserted = \<lparr>isMatching = True, players = {||}, playersInGame = {||},
     playersFinished = {||}, host = None\<rparr>"

definition lobby5 :: ILobby where
  "lobby5 = \<lparr>isMatching = True, players = {|1, 2, 3, 4, 5|},
     playersInGame = {|1, 2, 3, 4, 5|}, playersFinished = {||}, host = Some 1\<rparr>"

definition lobby4 :: ILobby where
  "lobby4 = \<lparr>isMatching = True, players = {|1, 2, 3, 4|},
     playersInGame = {|1, 2, 3, 4|}, playersFinished = {|1, 2, 3, 4|}, host = Some 1\<rparr>"

definition option30s :: MatchAborterOption where
  "option30s = \<lparr>vote_rate = 1 / 2, vote_min = 2, auto_abort_rate = 4 / 5,
     auto_abort_delay_ms = 30000\<rparr>"

definition option_nodelay :: MatchAborterOption where
  "option_nodelay = option30s\<lparr>auto_abort_delay_ms := 0\<rparr>"

text \<open>Two of the four votes needed are in.\<close>

definition midvote :: MatchAborter where
  "midvote = run [MatchStarted, ReceivedCustomCommand 2 0 ''!abort'' '''',
       ReceivedCustomCommand 3 0 ''!abort'' ''''] (new_MatchAborter lobby8 option30s)"

text \<open>A third vote, then the seventh of eight players finishes: the timer starts.\<close>

definition armed :: MatchAborter where
  "armed = run [ReceivedCustomCommand 4 0 ''!abort'' '''', LobbyChanged lobby8_finishing,
       PlayerFinished 7 0 True 7 8] midvote"

text \<open>The same lobby under a configuration whose delay is 0.\<close>

definition nodelay :: MatchAborter where
  "nodelay = run [MatchStarted, ReceivedCustomCommand 2 0 ''!abort'' '''',
       LobbyChanged lobby8_finishing] (new_MatchAborter lobby8 option_nodelay)"



definition votes1 :: VoteCounter where
  "votes1 = \<lparr>rate = 1 / 2, minimum = 2, roster = {|1, 2, 3, 4, 5, 6, 7, 8|}, voteSet = {|2|}\<rparr>"

definition votes2 :: VoteCounter where
  "votes2 = votes1\<lparr>voteSet := {|3, 2|}\<rparr>"

definition votes3 :: VoteCounter where
  "votes3 = votes1\<lparr>voteSet := {|4, 3, 2|}\<rparr>"

text \<open>Twenty-five in game, seven of them finished, under rates of 0.28.\<close>

definition lobby25 :: ILobby where
  "lobby25 = \<lparr>isMatching = True,
     players = {|1, 2, 3, 4, 5, 6, 7, 8, 9, 10, 11, 12, 13, 14, 15, 16, 17, 18, 19, 20,
                 21, 22, 23, 24, 25|},
     playersInGame = {|1, 2, 3, 4, 5, 6, 7, 8, 9, 10, 11, 12, 13, 14, 15, 16, 17, 18, 19, 20,
                       21, 22, 23, 24, 25|},
     playersFinished = {|1, 2, 3, 4, 5, 6, 7|}, host = Some 1\<rparr>"

definition option28 :: MatchAborterOption where
  "option28 = \<lparr>vote_rate = 28 / 100, vote_min = 0, auto_abort_rate = 28 / 100,
     auto_abort_delay_ms = 30000\<rparr>"

definition crowded :: MatchAborter where
  "crowded = run [LobbyChanged lobby25] (new_MatchAborter lobby8 option28)"

text \<open>Ten in game, one of them finished, under rates of 0.1.\<close>

definition lobby10 :: ILobby where
  "lobby10 = \<lparr>isMatching = True, players = {|1, 2, 3, 4, 5, 6, 7, 8, 9, 10|},
     playersInGame = {|1, 2, 3, 4, 5, 6, 7, 8, 9, 10|}, playersFinished = {|1|},
     host = Some 1\<rparr>"

definition option10 :: MatchAborterOption where
  "option10 = \<lparr>vote_rate = 1 / 10, vote_min = 0, auto_abort_rate = 1 / 10,
     auto_abort_delay_ms = 30000\<rparr>"

definition tenth :: MatchAborter where
  "tenth = run [LobbyChanged lobby10] (new_MatchAborter lobby8 option10)"

text \<open>A lobby of four with three finished, which shrinks to three.\<close>

definition lobby4_waiting :: ILobby where
  "lobby4_waiting = \<lparr>isMatching = True, players = {|1, 2, 3, 4|},
     playersInGame = {|1, 2, 3, 4|}, playersFinished = {|1, 2, 3|}, host = Some 1\<rparr>"

definition lobby3 :: ILobby where
  "lobby3 = \<lparr>isMatching = True, players = {|1, 2, 3|},
     playersInGame = {|1, 2, 3|}, playersFinished = {|1, 2, 3|}, host = Some 1\<rparr>"



section \<open>JavaScript numbers: properties\<close>

lemma floor_rat_numeral [simp]: "\<lfloor>numeral a / numeral b :: rat\<rfloor> = numeral a div numeral b"
  by (metis floor_divide_of_int_eq of_int_numeral)

lemma ceiling_rat_numeral [simp]:
  "\<lceil>numeral a / numeral b :: rat\<rceil> = - (- numeral a div numeral b)"
  by (metis ceiling_def floor_divide_of_int_eq of_int_numeral of_int_minus minus_divide_left)

lemma floor_rat_one_numeral [simp]: "\<lfloor>1 / numeral b :: rat\<rfloor> = 1 div numeral b"
  by (metis floor_divide_of_int_eq of_int_numeral of_int_1)

lemma ceiling_rat_one_numeral [simp]: "\<lceil>1 / numeral b :: rat\<rceil> = - (- 1 div numeral b)"
  by (metis ceiling_def floor_divide_of_int_eq of_int_numeral of_int_minus minus_divide_left
      of_int_1)

lemmas double_defs = to_double_def round_positive_def quantum_def exponent_def
  round_half_even_def Let_def

text \<open>The doubles of the decimals used in the example sessions.\<close>

lemma double_of_examples:
  "to_double (1 / 2) = Finite (1 / 2)"
  "to_double 2 = Finite 2"
  "to_double 0 = Finite 0"
  "to_double (4 / 5) = Finite (3602879701896397 / 4503599627370496)"
  "to_double (7 / 25) = Finite (1261007895663739 / 4503599627370496)"
  by (simp_all add: double_defs)

lemma bits_bounds: "0 < n \<Longrightarrow> 2 ^ (bits n - 1) \<le> n \<and> n < 2 ^ bits n"
proof (induction n rule: bits.induct)
  case (1 n)
  show ?case
  proof (cases "n div 2 = 0")
    case True
    with 1(2) have "n = 1" by (simp add: div_eq_0_iff)
    then show ?thesis by simp
  next
    case False
    with 1 have ih: "2 ^ (bits (n div 2) - 1) \<le> n div 2" "n div 2 < 2 ^ bits (n div 2)"
      by auto
    from False have pos: "0 < bits (n div 2)"
      by simp
    have b: "bits n = Suc (bits (n div 2))"
      using 1(2) by simp
    from pos have "(2::nat) ^ bits (n div 2) = 2 * 2 ^ (bits (n div 2) - 1)"
      by (cases "bits (n div 2)") simp_all
    with ih(1) have lo: "2 ^ bits (n div 2) \<le> n"
      by linarith
    from ih(2) have "n < 2 * 2 ^ bits (n div 2)"
      by linarith
    with lo b show ?thesis
      by simp
  qed
qed

lemma bits_le: "n < 2 ^ k \<Longrightarrow> bits n \<le> k"
proof (cases "0 < n")
  case True
  assume "n < 2 ^ k"
  with bits_bounds [OF True] have "(2::nat) ^ (bits n - 1) < 2 ^ k"
    by linarith
  then have "bits n - 1 < k"
    by (simp add: power_strict_increasing_iff)
  then show ?thesis by linarith
next
  case False
  then show ?thesis by simp
qed

lemma exponent_le:
  assumes "0 < x" "x < 2 ^ 53"
  shows "exponent x \<le> 52"
proof (cases "1 \<le> x")
  case True
  from assms(2) have "\<lfloor>x\<rfloor> < 2 ^ 53"
    by (simp add: floor_less_iff)
  moreover from True have "0 \<le> \<lfloor>x\<rfloor>"
    by simp
  ultimately have "nat \<lfloor>x\<rfloor> < 2 ^ 53"
    by (simp add: nat_less_iff)
  then have "bits (nat \<lfloor>x\<rfloor>) \<le> 53"
    by (rule bits_le)
  with True show ?thesis
    by (simp add: exponent_def)
next
  case False
  then show ?thesis
    by (simp add: exponent_def)
qed

lemma round_half_even_bounds: "\<lfloor>y\<rfloor> \<le> round_half_even y \<and> round_half_even y \<le> \<lceil>y\<rceil>"
proof -
  have "\<lfloor>y\<rfloor> + 1 \<le> \<lceil>y\<rceil>" if "y \<noteq> of_int \<lfloor>y\<rfloor>"
    using that by (simp add: ceiling_altdef)
  moreover have "\<lfloor>y\<rfloor> \<le> \<lceil>y\<rceil>"
    by (simp add: floor_le_ceiling)
  ultimately show ?thesis
    by (auto simp: round_half_even_def Let_def)
qed

lemma quantum_pos: "0 < quantum x"
  by (simp add: quantum_def)

lemma quantum_inverse_power:
  assumes "0 < x" "x < 2 ^ 53"
  shows "\<exists>j. 1 / quantum x = 2 ^ j"
proof -
  let ?k = "max (exponent x) (- 1022) - 52"
  from exponent_le [OF assms] have "?k \<le> 0"
    by simp
  then have "(2::rat) powi ?k = inverse (2 ^ nat (- ?k))"
    by (auto simp: power_int_def power_divide inverse_eq_divide)
  then have "1 / quantum x = 2 ^ nat (- ?k)"
    by (simp add: quantum_def field_simps)
  then show ?thesis ..
qed

text \<open>
  Below \<open>2 ^ 53\<close> every integer is a double, so rounding a positive number never
  crosses an integer: the result is finite and lies between the floor and the ceiling.
\<close>

lemma round_positive_sandwich:
  assumes "0 < x" "x < 2 ^ 53"
  shows "\<exists>r. round_positive x = Finite r \<and> of_int \<lfloor>x\<rfloor> \<le> r \<and> r \<le> of_int \<lceil>x\<rceil>"
proof -
  let ?q = "quantum x"
  let ?r = "of_int (round_half_even (x / ?q)) * ?q"
  from quantum_inverse_power [OF assms] obtain j where j: "1 / ?q = 2 ^ j"
    by blast
  have q: "0 < ?q"
    by (rule quantum_pos)
  have scaled: "of_int N / ?q = of_int (N * 2 ^ j)" for N :: int
  proof -
    have "of_int N / ?q = of_int N * (1 / ?q)"
      by simp
    also have "\<dots> = of_int N * 2 ^ j"
      by (simp only: j)
    finally show ?thesis
      by simp
  qed
  have "of_int (\<lfloor>x\<rfloor> * 2 ^ j) \<le> x / ?q"
    unfolding scaled [symmetric] using q by (simp add: divide_right_mono)
  then have "\<lfloor>x\<rfloor> * 2 ^ j \<le> \<lfloor>x / ?q\<rfloor>"
    by (simp add: le_floor_iff)
  with round_half_even_bounds [of "x / ?q"] have "\<lfloor>x\<rfloor> * 2 ^ j \<le> round_half_even (x / ?q)"
    by linarith
  then have "(of_int (\<lfloor>x\<rfloor> * 2 ^ j) :: rat) \<le> of_int (round_half_even (x / ?q))"
    by (simp only: of_int_le_iff)
  then have below: "of_int (\<lfloor>x\<rfloor> * 2 ^ j) * ?q \<le> ?r"
    using q by (simp only: mult_right_mono less_imp_le)
  have back_lo: "(of_int (\<lfloor>x\<rfloor> * 2 ^ j) :: rat) * ?q = of_int \<lfloor>x\<rfloor>"
    unfolding scaled [symmetric] using q by simp
  have lo: "of_int \<lfloor>x\<rfloor> \<le> ?r"
    using below unfolding back_lo .
  have "x / ?q \<le> of_int (\<lceil>x\<rceil> * 2 ^ j)"
    unfolding scaled [symmetric] using q by (simp add: divide_right_mono)
  then have "\<lceil>x / ?q\<rceil> \<le> \<lceil>x\<rceil> * 2 ^ j"
    by (simp add: ceiling_le_iff)
  with round_half_even_bounds [of "x / ?q"] have "round_half_even (x / ?q) \<le> \<lceil>x\<rceil> * 2 ^ j"
    by linarith
  then have "(of_int (round_half_even (x / ?q)) :: rat) \<le> of_int (\<lceil>x\<rceil> * 2 ^ j)"
    by (simp only: of_int_le_iff)
  then have above: "?r \<le> of_int (\<lceil>x\<rceil> * 2 ^ j) * ?q"
    using q by (simp only: mult_right_mono less_imp_le)
  have back_hi: "(of_int (\<lceil>x\<rceil> * 2 ^ j) :: rat) * ?q = of_int \<lceil>x\<rceil>"
    unfolding scaled [symmetric] using q by simp
  have hi: "?r \<le> of_int \<lceil>x\<rceil>"
    using above unfolding back_hi .
  from assms(2) have "\<lceil>x\<rceil> \<le> 2 ^ 53"
    by (simp add: ceiling_le_iff)
  then have "(of_int \<lceil>x\<rceil> :: rat) \<le> 2 ^ 53"
    by (metis of_int_le_iff of_int_numeral of_int_power)
  also have "(2::rat) ^ 53 < 2 ^ 1024"
    by (simp add: power_strict_increasing_iff)
  finally have "of_int \<lceil>x\<rceil> < (2::rat) ^ 1024" .
  with hi have "\<not> 2 ^ 1024 \<le> ?r"
    by linarith
  then have "round_positive x = Finite ?r"
    by (simp add: round_positive_def Let_def)
  with lo hi show ?thesis
    by blast
qed

lemma to_double_sandwich:
  assumes "0 \<le> x" "x < 2 ^ 53"
  shows "\<exists>r. to_double x = Finite r \<and> of_int \<lfloor>x\<rfloor> \<le> r \<and> r \<le> of_int \<lceil>x\<rceil>"
proof (cases "x = 0")
  case True
  then show ?thesis
    by (simp add: to_double_def)
next
  case False
  with assms(1) have "0 < x"
    by simp
  from round_positive_sandwich [OF this assms(2)] \<open>0 < x\<close> show ?thesis
    by (simp add: to_double_def)
qed

lemma to_double_of_int:
  assumes "0 \<le> k" "k < 2 ^ 53"
  shows "to_double (of_int k) = Finite (of_int k)"
proof -
  from assms have "(0::rat) \<le> of_int k" "(of_int k :: rat) < 2 ^ 53"
    by (simp_all add: of_int_less_numeral_power_cancel_iff)
  from to_double_sandwich [OF this] obtain r
    where "to_double (of_int k) = Finite r" "of_int k \<le> r" "r \<le> of_int k"
    by auto
  then show ?thesis
    by simp
qed

lemma ceiling_within_one:
  fixes x p :: rat
  assumes "of_int \<lfloor>x\<rfloor> \<le> p" "p \<le> of_int \<lceil>x\<rceil>"
  shows "\<lceil>x\<rceil> - 1 \<le> \<lceil>p\<rceil> \<and> \<lceil>p\<rceil> \<le> \<lceil>x\<rceil>"
proof -
  from assms(2) have hi: "\<lceil>p\<rceil> \<le> \<lceil>x\<rceil>"
    by (simp add: ceiling_le_iff)
  have "of_int \<lfloor>x\<rfloor> \<le> (of_int \<lceil>p\<rceil> :: rat)"
    using assms(1) le_of_int_ceiling [of p] by (rule order_trans)
  then have "\<lfloor>x\<rfloor> \<le> \<lceil>p\<rceil>"
    by simp
  moreover have "\<lceil>x\<rceil> \<le> \<lfloor>x\<rfloor> + 1"
    by (simp add: ceiling_altdef)
  ultimately show ?thesis
    using hi by linarith
qed

lemma Math_max_Finite: "Math_max (Finite a) (Finite b) = Finite (max a b)"
  by (simp add: Math_max_def max_def)

lemma js_times_size:
  "js_times (set_size A) (Finite d) = to_double (of_nat (fcard A) * d)"
  by (simp add: js_times_def set_size_def)

section \<open>MapRecaster: properties\<close>

lemma chat_command_spent:
  "\<not> canRecast s \<Longrightarrow> onReceivedChatCommand c prm pl s = s"
  by (simp add: onReceivedChatCommand_def)

lemma recast_run_spent:
  "\<not> canRecast s \<Longrightarrow> ReceivedBanchoResponse BeatmapChanged \<notin> set es \<Longrightarrow> recast_run es s = s"
proof (induction es arbitrary: s)
  case Nil
  show ?case by simp
next
  case (Cons e es)
  then have "recast_step e s = s"
    by (cases e) (auto simp: chat_command_spent onReceivedBanchoResponse_def)
  with Cons show ?case by simp
qed

lemma chat_command_cases:
  "onReceivedChatCommand c prm pl s = s
   \<or> (\<not> canRecast (onReceivedChatCommand c prm pl s)
      \<and> length (sent (onReceivedChatCommand c prm pl s)) = Suc (length (sent s)))"
  by (simp add: onReceivedChatCommand_def SendMessage_recast_def)

lemma recast_run_at_most_once:
  "ReceivedBanchoResponse BeatmapChanged \<notin> set es \<Longrightarrow>
   length (sent (recast_run es s)) \<le> Suc (length (sent s))"
proof (induction es arbitrary: s)
  case Nil
  show ?case by simp
next
  case (Cons e es)
  then have window: "ReceivedBanchoResponse BeatmapChanged \<notin> set es"
    by simp
  show ?case
  proof (cases e)
    case (ReceivedChatCommand c prm pl)
    let ?t = "onReceivedChatCommand c prm pl s"
    from chat_command_cases [of c prm pl s] show ?thesis
    proof
      assume "?t = s"
      with Cons.IH [OF window, of s] ReceivedChatCommand show ?thesis by simp
    next
      assume spent: "\<not> canRecast ?t \<and> length (sent ?t) = Suc (length (sent s))"
      with window have "recast_run es ?t = ?t"
        by (simp add: recast_run_spent)
      with spent ReceivedChatCommand show ?thesis by simp
    qed
  next
    case (ReceivedBanchoResponse ty)
    with Cons.prems have "ty \<noteq> BeatmapChanged"
      by auto
    then have "recast_step e s = s"
      by (simp add: ReceivedBanchoResponse onReceivedBanchoResponse_def)
    with Cons.IH [OF window, of s] show ?thesis by simp
  qed
qed

text \<open>
  C8. The recast action runs at most once per selection window. A beatmap-changed response
  sets the flag (Armed) and sends nothing; \<open>!update\<close> while the flag is set sends the one
  recast message and clears the flag (Spent); \<open>!update\<close> while the flag is clear changes
  nothing; and over any run of events with no beatmap-changed response in it, at most one
  message is sent.
\<close>

theorem recast_once_per_window:
  "canRecast (onReceivedBanchoResponse BeatmapChanged s)
   \<and> sent (onReceivedBanchoResponse BeatmapChanged s) = sent s
   \<and> (canRecast s \<longrightarrow>
        \<not> canRecast (onReceivedChatCommand ''!update'' prm pl s)
        \<and> sent (onReceivedChatCommand ''!update'' prm pl s)
            = sent s @ [''!mp map '' @ number_text (mapId s)])
   \<and> (\<not> canRecast s \<longrightarrow> onReceivedChatCommand ''!update'' prm pl s = s)
   \<and> (ReceivedBanchoResponse BeatmapChanged \<notin> set es \<longrightarrow>
        length (sent (recast_run es s)) \<le> Suc (length (sent s)))"
  by (simp add: onReceivedBanchoResponse_def onReceivedChatCommand_def
      SendMessage_recast_def recast_run_at_most_once)

theorem recast_once_per_window_witness:
  "canRecast (new_MapRecaster 75)
   \<and> sent (onReceivedChatCommand ''!update'' '''' 1 (new_MapRecaster 75)) = [''!mp map 75'']
   \<and> \<not> canRecast (onReceivedChatCommand ''!update'' '''' 1 (new_MapRecaster 75))
   \<and> onReceivedChatCommand ''!update'' '''' 2
        (onReceivedChatCommand ''!update'' '''' 1 (new_MapRecaster 75))
      = onReceivedChatCommand ''!update'' '''' 1 (new_MapRecaster 75)
   \<and> canRecast (onReceivedBanchoResponse BeatmapChanged
        (onReceivedChatCommand ''!update'' '''' 1 (new_MapRecaster 75)))
   \<and> length (sent (recast_run
        [ReceivedChatCommand ''!update'' '''' 1, ReceivedBanchoResponse (OtherResponse 0),
         ReceivedChatCommand ''!update'' '''' 2] (new_MapRecaster 75))) \<le> Suc 0"
proof -
  let ?s = "new_MapRecaster 75"
  let ?t = "onReceivedChatCommand ''!update'' '''' 1 ?s"
  let ?es = "[ReceivedChatCommand ''!update'' '''' 1, ReceivedBanchoResponse (OtherResponse 0),
         ReceivedChatCommand ''!update'' '''' 2]"
  have armed: "canRecast ?s" and fresh: "sent ?s = []" "mapId ?s = 75"
    by (simp_all add: new_MapRecaster_def)
  have dec: "number_text 75 = ''75''"
    by code_simp
  have window: "ReceivedBanchoResponse BeatmapChanged \<notin> set ?es"
    by simp
  from recast_once_per_window [of ?s "''''" 1 ?es] armed window
  have fired: "\<not> canRecast ?t" "sent ?t = sent ?s @ [''!mp map '' @ number_text (mapId ?s)]"
    "length (sent (recast_run ?es ?s)) \<le> Suc (length (sent ?s))"
    by blast+
  from recast_once_per_window [of ?t "''''" 2 "[]"] fired(1)
  have ignored: "onReceivedChatCommand ''!update'' '''' 2 ?t = ?t"
    by blast
  from recast_once_per_window [of ?t "''''" 2 "[]"]
  have rearmed: "canRecast (onReceivedBanchoResponse BeatmapChanged ?t)"
    by blast
  from fired(2) dec fresh have said: "sent ?t = [''!mp map 75'']"
    by simp
  from fired(3) fresh have once: "length (sent (recast_run ?es ?s)) \<le> Suc 0"
    by simp
  from armed said fired(1) ignored rearmed once show ?thesis
    by blast
qed

text \<open>
  C9. The chat-command handler never looks at the participant who issued the command, and
  no authority level reaches it: two participants issuing the same command in the same
  state leave the same state behind, messages sent included.
\<close>

theorem recast_ignores_issuer:
  "onReceivedChatCommand command param p1 s = onReceivedChatCommand command param p2 s"
  by (simp add: onReceivedChatCommand_def)

section \<open>MatchAborter: the timer invariant\<close>

lemma timer_inv_new: "timer_inv (new_MatchAborter l opt)"
  by (simp add: timer_inv_def new_MatchAborter_def)

lemma timer_inv_stopTimer: "timer_inv s \<Longrightarrow> timer_inv (stopTimer s)"
  by (auto simp: timer_inv_def stopTimer_def clearTimeout_def split: option.splits)

lemma timer_inv_doAbort: "timer_inv s \<Longrightarrow> timer_inv (doAbort s)"
  using timer_inv_stopTimer [of s]
  by (simp add: doAbort_def lobby_AbortMatch_def timer_inv_def)

lemma timer_inv_startTimer: "timer_inv s \<Longrightarrow> timer_inv (startTimer s)"
  by (auto simp: timer_inv_def startTimer_def setTimeout_def stopTimer_def clearTimeout_def
      split: option.splits if_splits)

lemma timer_inv_checkAutoAbort: "timer_inv s \<Longrightarrow> timer_inv (checkAutoAbort s)"
  by (simp add: checkAutoAbort_def timer_inv_startTimer)

lemma timer_inv_voting [simp]: "timer_inv (s\<lparr>voting := v\<rparr>) = timer_inv s"
  by (simp add: timer_inv_def)

lemma timer_inv_lobby [simp]: "timer_inv (s\<lparr>lobby := l\<rparr>) = timer_inv s"
  by (simp add: timer_inv_def)

lemma timer_inv_clock [simp]: "timer_inv (s\<lparr>clock := c\<rparr>) = timer_inv s"
  by (simp add: timer_inv_def)

lemma timer_inv_SendMessage [simp]: "timer_inv (lobby_SendMessage v s) = timer_inv s"
  by (simp add: timer_inv_def lobby_SendMessage_def)

lemma timer_inv_checkVoteCount: "timer_inv s \<Longrightarrow> timer_inv (checkVoteCount b s)"
  by (simp add: checkVoteCount_def Let_def timer_inv_doAbort)

lemma timer_inv_vote: "timer_inv s \<Longrightarrow> timer_inv (vote p s)"
  by (simp add: vote_def timer_inv_checkVoteCount split: prod.splits)

lemma timer_inv_onPlayerLeft: "timer_inv s \<Longrightarrow> timer_inv (onPlayerLeft p s)"
  by (simp add: onPlayerLeft_def Let_def timer_inv_checkVoteCount timer_inv_checkAutoAbort
      timer_inv_stopTimer)

lemma timer_inv_onCustomCommand: "timer_inv s \<Longrightarrow> timer_inv (onCustomCommand p a c prm s)"
  by (simp add: onCustomCommand_def timer_inv_doAbort timer_inv_vote)

lemma timer_inv_timerDue: "timer_inv s \<Longrightarrow> timer_inv (timerDue h s)"
  by (auto simp: timerDue_def abortTimerAction_def doAbort_def lobby_AbortMatch_def
      stopTimer_def clearTimeout_def timer_inv_def split: option.splits)

lemma timer_inv_step: "timer_inv s \<Longrightarrow> timer_inv (step e s)"
  by (cases e)
    (simp_all add: timer_inv_onPlayerLeft onMatchStarted_def onPlayerFinished_def
      timer_inv_checkAutoAbort onMatchFinished_def timer_inv_stopTimer
      timer_inv_onCustomCommand timer_inv_timerDue)

lemma timer_inv_run: "timer_inv s \<Longrightarrow> timer_inv (run es s)"
  by (induction es arbitrary: s) (simp_all add: timer_inv_step)

subsection \<open>A retired handle stays retired\<close>

lemma retired_stopTimer: "retired h s \<Longrightarrow> retired h (stopTimer s)"
  by (auto simp: retired_def stopTimer_def clearTimeout_def split: option.splits)

lemma retired_doAbort: "retired h s \<Longrightarrow> retired h (doAbort s)"
  using retired_stopTimer [of h s]
  by (simp add: doAbort_def lobby_AbortMatch_def retired_def)

lemma retired_startTimer: "retired h s \<Longrightarrow> retired h (startTimer s)"
  by (auto simp: retired_def startTimer_def setTimeout_def stopTimer_def clearTimeout_def
      split: option.splits if_splits)

lemma retired_checkAutoAbort: "retired h s \<Longrightarrow> retired h (checkAutoAbort s)"
  by (simp add: checkAutoAbort_def retired_startTimer)

lemma retired_voting [simp]: "retired h (s\<lparr>voting := v\<rparr>) = retired h s"
  by (simp add: retired_def)

lemma retired_lobby [simp]: "retired h (s\<lparr>lobby := l\<rparr>) = retired h s"
  by (simp add: retired_def)

lemma retired_clock [simp]: "retired h (s\<lparr>clock := c\<rparr>) = retired h s"
  by (simp add: retired_def)

lemma retired_SendMessage [simp]: "retired h (lobby_SendMessage v s) = retired h s"
  by (simp add: retired_def lobby_SendMessage_def)

lemma retired_checkVoteCount: "retired h s \<Longrightarrow> retired h (checkVoteCount b s)"
  by (simp add: checkVoteCount_def Let_def retired_doAbort)

lemma retired_vote: "retired h s \<Longrightarrow> retired h (vote p s)"
  by (simp add: vote_def retired_checkVoteCount split: prod.splits)

lemma retired_onPlayerLeft: "retired h s \<Longrightarrow> retired h (onPlayerLeft p s)"
  by (simp add: onPlayerLeft_def Let_def retired_checkVoteCount retired_checkAutoAbort
      retired_stopTimer)

lemma retired_onCustomCommand: "retired h s \<Longrightarrow> retired h (onCustomCommand p a c prm s)"
  by (simp add: onCustomCommand_def retired_doAbort retired_vote)

lemma retired_timerDue: "retired h s \<Longrightarrow> retired h (timerDue h' s)"
  by (auto simp: timerDue_def abortTimerAction_def doAbort_def lobby_AbortMatch_def
      stopTimer_def clearTimeout_def retired_def split: option.splits)

lemma retired_step: "retired h s \<Longrightarrow> retired h (step e s)"
  by (cases e)
    (simp_all add: retired_onPlayerLeft onMatchStarted_def onPlayerFinished_def
      retired_checkAutoAbort onMatchFinished_def retired_stopTimer
      retired_onCustomCommand retired_timerDue)

lemma retired_run: "retired h s \<Longrightarrow> retired h (run es s)"
  by (induction es arbitrary: s) (simp_all add: retired_step)

lemma retired_timerDue_noop: "retired h s \<Longrightarrow> timerDue h s = s"
  by (simp add: retired_def timerDue_def)

lemma stopTimer_retires:
  "timer_inv s \<Longrightarrow> abortTimer s = Some h \<Longrightarrow> retired h (stopTimer s)"
  by (auto simp: timer_inv_def retired_def stopTimer_def clearTimeout_def)

lemma startTimer_retires:
  "timer_inv s \<Longrightarrow> abortTimer s = Some h \<Longrightarrow> auto_abort_delay_ms (option s) \<noteq> 0 \<Longrightarrow>
   retired h (startTimer s)"
  by (auto simp: timer_inv_def retired_def startTimer_def setTimeout_def stopTimer_def
      clearTimeout_def)

lemma clear_only_timer: "dom m = {x} \<Longrightarrow> m(x := None) = Map.empty"
proof (rule ext)
  fix y
  assume "dom m = {x}"
  then have "y \<noteq> x \<Longrightarrow> m y = None"
    by (metis domIff singletonD)
  then show "(m(x := None)) y = Map.empty y"
    by simp
qed

lemma startTimer_armed:
  "timer_inv s \<Longrightarrow> auto_abort_delay_ms (option s) \<noteq> 0 \<Longrightarrow>
   abortTimer (startTimer s) = Some (timer_seq s)
   \<and> timers (startTimer s)
       = [timer_seq s \<mapsto> clock s + timeout_after (auto_abort_delay_ms (option s))]"
  by (auto simp: timer_inv_def startTimer_def setTimeout_def stopTimer_def
      clearTimeout_def clear_only_timer split: option.splits)

lemma abortTimerAction_disarmed: "abortTimer s = None \<Longrightarrow> abortTimerAction s = s"
  by (simp add: abortTimerAction_def)

section \<open>MatchAborter: what each function changes\<close>

lemma fold_AddVoter:
  "voteSet v = {||} \<Longrightarrow> fold AddVoter xs v = v\<lparr>roster := roster v |\<union>| fset_of_list xs\<rparr>"
  by (induction xs arbitrary: v) (auto simp: AddVoter_def setRoster_def)

lemma onMatchStarted_eq:
  "onMatchStarted s = s\<lparr>voting := (voting s)\<lparr>roster := players (lobby s), voteSet := {||}\<rparr>\<rparr>"
  by (simp add: onMatchStarted_def fold_AddVoter RemoveAllVoters_def setRoster_def)

lemma stopTimer_fields:
  "abortTimer (stopTimer s) = None" "voting (stopTimer s) = voting s"
  "lobby (stopTimer s) = lobby s" "calls (stopTimer s) = calls s"
  "option (stopTimer s) = option s" "clock (stopTimer s) = clock s"
  "timer_seq (stopTimer s) = timer_seq s"
  by (simp_all add: stopTimer_def clearTimeout_def split: option.splits)

lemma stopTimer_timers:
  "timers (stopTimer s) h' = (if abortTimer s = Some h' then None else timers s h')"
  by (simp add: stopTimer_def clearTimeout_def split: option.splits)

lemma doAbort_fields:
  "abortTimer (doAbort s) = None" "voting (doAbort s) = voting s"
  "lobby (doAbort s) = lobby s" "calls (doAbort s) = calls s @ [AbortMatch]"
  "option (doAbort s) = option s" "clock (doAbort s) = clock s"
  "timer_seq (doAbort s) = timer_seq s"
  by (simp_all add: doAbort_def lobby_AbortMatch_def stopTimer_fields)

lemma doAbort_timers:
  "timers (doAbort s) h' = (if abortTimer s = Some h' then None else timers s h')"
  by (simp add: doAbort_def lobby_AbortMatch_def stopTimer_timers)

lemma host_abort:
  "isMatching (lobby s) \<Longrightarrow> host (lobby s) = Some p \<Longrightarrow>
   onCustomCommand p auth ''!abort'' prm s = doAbort s"
  by (simp add: onCustomCommand_def)

lemma authority_abort:
  "isMatching (lobby s) \<Longrightarrow> 2 \<le> auth \<Longrightarrow> onCustomCommand p auth ''*abort'' prm s = doAbort s"
  by (simp add: onCustomCommand_def)

lemma passing_vote_abort:
  "isMatching (lobby s) \<Longrightarrow> host (lobby s) \<noteq> Some p \<Longrightarrow> \<not> passed (voting s) \<Longrightarrow>
   fst (Vote p (voting s)) \<Longrightarrow> passed (snd (Vote p (voting s))) \<Longrightarrow>
   onCustomCommand p auth ''!abort'' prm s
     = doAbort (lobby_SendMessage (snd (Vote p (voting s))) (s\<lparr>voting := snd (Vote p (voting s))\<rparr>))"
  by (auto simp: onCustomCommand_def vote_def checkVoteCount_def Let_def lobby_SendMessage_def
      passed_def split: prod.splits)

lemma due_timer_abort:
  "abortTimer s = Some h \<Longrightarrow> timers s h = Some due \<Longrightarrow> due \<le> clock s \<Longrightarrow>
   step (TimerDue h) s = doAbort s"
  by (simp add: timerDue_def abortTimerAction_def doAbort_def stopTimer_def clearTimeout_def)


lemma checkAutoAbort_armed: "abortTimer s \<noteq> None \<Longrightarrow> checkAutoAbort s = s"
  by (auto simp: checkAutoAbort_def)

lemma progress_run_armed:
  "abortTimer s \<noteq> None \<Longrightarrow>
   run (map (\<lambda>(p, score, isPassed, nFinished, nInGame).
              PlayerFinished p score isPassed nFinished nInGame) sigs) s = s"
  by (induction sigs) (auto simp: onPlayerFinished_def checkAutoAbort_armed)











section \<open>The example sessions, evaluated\<close>

lemmas eval_defs = new_MatchAborter_def new_VoteCounter_def onMatchStarted_eq onCustomCommand_def
  vote_def Vote_def passed_def count_def threshold_def checkVoteCount_def doAbort_def stopTimer_def
  lobby_AbortMatch_def lobby_SendMessage_def fcard.rep_eq ceiling_le_iff Let_def abortCount_def
  clearTimeout_def onPlayerFinished_def checkAutoAbort_def autoAbortRequired_def startTimer_def
  setTimeout_def timerDue_def abortTimerAction_def onMatchFinished_def RemoveVoter_def Clear_def
  lobby8_def lobby8_finishing_def lobby_deserted_def lobby5_def lobby4_def
  option30s_def option_nodelay_def lobby25_def option28_def lobby4_waiting_def lobby3_def
  lobby10_def option10_def
  set_size_def js_times_def Math_max_def double_defs timeout_after_def TIMEOUT_MAX_def

lemma midvote_eq:
  "midvote = \<lparr>option = option30s, abortTimer = None, voting = votes2, lobby = lobby8,
      timers = Map.empty, timer_seq = 0, clock = 0,
      calls = [SendMessage votes1, SendMessage votes2]\<rparr>"
  by (simp add: midvote_def votes1_def votes2_def eval_defs)

lemma armed_eq:
  "armed = \<lparr>option = option30s, abortTimer = Some 0, voting = votes3, lobby = lobby8_finishing,
      timers = [0 \<mapsto> 30000], timer_seq = Suc 0, clock = 0,
      calls = [SendMessage votes1, SendMessage votes2, SendMessage votes3]\<rparr>"
  by (simp add: armed_def midvote_eq votes1_def votes2_def votes3_def eval_defs)

lemma nodelay_eq:
  "nodelay = \<lparr>option = option_nodelay, abortTimer = None, voting = votes1,
      lobby = lobby8_finishing, timers = Map.empty, timer_seq = 0, clock = 0,
      calls = [SendMessage votes1]\<rparr>"
  by (simp add: nodelay_def votes1_def eval_defs)


lemma crowded_eq:
  "crowded = \<lparr>option = option28, abortTimer = None,
      voting = \<lparr>rate = 28 / 100, minimum = 0, roster = {||}, voteSet = {||}\<rparr>,
      lobby = lobby25, timers = Map.empty, timer_seq = 0, clock = 0, calls = []\<rparr>"
  by (simp add: crowded_def new_MatchAborter_def new_VoteCounter_def option28_def)

lemma tenth_eq:
  "tenth = \<lparr>option = option10, abortTimer = None,
      voting = \<lparr>rate = 1 / 10, minimum = 0, roster = {||}, voteSet = {||}\<rparr>,
      lobby = lobby10, timers = Map.empty, timer_seq = 0, clock = 0, calls = []\<rparr>"
  by (simp add: tenth_def new_MatchAborter_def new_VoteCounter_def option10_def)





section \<open>MatchAborter: the abort action\<close>

text \<open>
  C1, as the code has it. The abort action is \<open>doAbort\<close>: it stops the timer (the handle
  is forgotten and its timeout is no longer pending) and calls \<open>AbortMatch\<close> on the lobby
  exactly once; the votes are left as they are. The three triggers all come
  down to it: the host's \<open>!abort\<close> and an authorised \<open>*abort\<close> are \<open>doAbort\<close> on the
  current state, a vote that makes the count pass is \<open>doAbort\<close> after the vote and its
  progress message, and the timeout falling due is \<open>doAbort\<close> on the current state.
\<close>

theorem abort_action_effect:
  "abortTimer (doAbort s) = None
   \<and> (\<forall>h. abortTimer s = Some h \<longrightarrow> timers (doAbort s) h = None)
   \<and> calls (doAbort s) = calls s @ [AbortMatch]
   \<and> voting (doAbort s) = voting s
   \<and> (isMatching (lobby s) \<and> host (lobby s) = Some p \<longrightarrow>
        onCustomCommand p auth ''!abort'' prm s = doAbort s)
   \<and> (isMatching (lobby s) \<and> 2 \<le> auth \<longrightarrow>
        onCustomCommand p auth ''*abort'' prm s = doAbort s)
   \<and> (isMatching (lobby s) \<and> host (lobby s) \<noteq> Some p \<and> \<not> passed (voting s)
        \<and> fst (Vote p (voting s)) \<and> passed (snd (Vote p (voting s))) \<longrightarrow>
        onCustomCommand p auth ''!abort'' prm s
          = doAbort (lobby_SendMessage (snd (Vote p (voting s)))
                      (s\<lparr>voting := snd (Vote p (voting s))\<rparr>)))
   \<and> (abortTimer s = Some h \<and> timers s h = Some due \<and> due \<le> clock s \<longrightarrow>
        step (TimerDue h) s = doAbort s)"
  using host_abort [of s p auth prm] authority_abort [of s auth p prm]
    passing_vote_abort [of s p auth prm] due_timer_abort [of s h due]
  by (simp add: doAbort_fields doAbort_timers)

theorem abort_action_effect_witness:
  "isMatching (lobby (step (Elapse 30000) armed))
   \<and> host (lobby (step (Elapse 30000) armed)) = Some 1
   \<and> onCustomCommand 1 0 ''!abort'' '''' (step (Elapse 30000) armed)
       = doAbort (step (Elapse 30000) armed)
   \<and> onCustomCommand 6 2 ''*abort'' '''' (step (Elapse 30000) armed)
       = doAbort (step (Elapse 30000) armed)
   \<and> \<not> passed (voting (step (Elapse 30000) armed))
   \<and> passed (snd (Vote 5 (voting (step (Elapse 30000) armed))))
   \<and> abortCount (onCustomCommand 5 0 ''!abort'' '''' (step (Elapse 30000) armed))
       = Suc (abortCount (step (Elapse 30000) armed))
   \<and> abortTimer (step (Elapse 30000) armed) = Some 0
   \<and> step (TimerDue 0) (step (Elapse 30000) armed) = doAbort (step (Elapse 30000) armed)
   \<and> abortTimer (doAbort (step (Elapse 30000) armed)) = None
   \<and> timers (doAbort (step (Elapse 30000) armed)) 0 = None
   \<and> voteSet (voting (doAbort (step (Elapse 30000) armed))) = {|4, 3, 2|}"
proof -
  let ?s = "step (Elapse 30000) armed"
  have matching: "isMatching (lobby ?s)" and hosted: "host (lobby ?s) = Some 1"
    and other: "host (lobby ?s) \<noteq> Some 5" and level: "(2::int) \<le> 2"
    by (simp_all add: armed_eq eval_defs)
  have open_vote: "\<not> passed (voting ?s)" and accepted: "fst (Vote 5 (voting ?s))"
    and passing: "passed (snd (Vote 5 (voting ?s)))"
    by (simp_all add: armed_eq votes3_def votes1_def eval_defs)
  have timer: "abortTimer ?s = Some 0" "timers ?s 0 = Some 30000" "30000 \<le> clock ?s"
    by (simp_all add: armed_eq)
  have votes: "voteSet (voting ?s) = {|4, 3, 2|}"
    by (simp add: armed_eq votes3_def votes1_def)
  note host_case = abort_action_effect [of ?s 1 0 "''''" 0 30000]
  note vote_case = abort_action_effect [of ?s 5 0 "''''" 0 30000]
  from host_case matching hosted have a: "onCustomCommand 1 0 ''!abort'' '''' ?s = doAbort ?s"
    by blast
  have b: "onCustomCommand 6 2 ''*abort'' '''' ?s = doAbort ?s"
    using abort_action_effect [of ?s 6 2 "''''" 0 30000] matching level by blast
  from vote_case matching other open_vote accepted passing
  have c: "onCustomCommand 5 0 ''!abort'' '''' ?s
      = doAbort (lobby_SendMessage (snd (Vote 5 (voting ?s)))
                  (?s\<lparr>voting := snd (Vote 5 (voting ?s))\<rparr>))"
    by blast
  have c': "abortCount (onCustomCommand 5 0 ''!abort'' '''' ?s) = Suc (abortCount ?s)"
    unfolding c by (simp add: abortCount_def doAbort_fields lobby_SendMessage_def)
  from host_case timer have d: "step (TimerDue 0) ?s = doAbort ?s"
    by blast
  from host_case timer have e: "abortTimer (doAbort ?s) = None" "timers (doAbort ?s) 0 = None"
    "voting (doAbort ?s) = voting ?s"
    by blast+
  from matching hosted a b open_vote passing c' timer(1) d e votes show ?thesis
    by simp
qed

text \<open>
  C1 as stated fails: with two votes in, the host's \<open>!abort\<close> triggers the action
  (\<open>AbortMatch\<close> is called) and both votes are still there afterwards.
\<close>

theorem abort_keeps_votes_counterexample:
  "calls (onCustomCommand 1 0 ''!abort'' '''' midvote) = calls midvote @ [AbortMatch]
   \<and> voteSet (voting (onCustomCommand 1 0 ''!abort'' '''' midvote)) = {|3, 2|}
   \<and> voteSet (voting (onCustomCommand 1 0 ''!abort'' '''' midvote)) \<noteq> {||}"
  by (simp add: midvote_eq votes2_def votes1_def eval_defs)

section \<open>MatchAborter: the timer\<close>

text \<open>
  C2. Let \<open>s\<close> be any state the plugin reaches from its constructor, with a timer running
  under handle \<open>h\<close>. Once \<open>stopTimer\<close> has returned, the runtime running the callback of
  \<open>h\<close> changes nothing, whatever happens in between (and the callback's own test finds
  \<open>abortTimer\<close> null, so that it would not abort either). If instead \<open>startTimer\<close> is
  called again, the first timeout is cleared whether or not it had fallen due, the one
  pending timeout is the new one with the new due time, and the callback of \<open>h\<close> changes
  nothing from then on. The class keeps no generation number: after a second
  \<open>startTimer\<close> it is \<open>clearTimeout\<close> that keeps the first callback from running.
\<close>

theorem stale_timeout_never_runs:
  assumes "s = run es0 (new_MatchAborter l opt)" and "abortTimer s = Some h"
  shows "step (TimerDue h) (run es (stopTimer s)) = run es (stopTimer s)
    \<and> abortTimerAction (stopTimer s) = stopTimer s
    \<and> (auto_abort_delay_ms (option s) \<noteq> 0 \<longrightarrow>
         step (TimerDue h) (run es (startTimer s)) = run es (startTimer s)
         \<and> abortTimer (startTimer s) = Some (timer_seq s)
         \<and> timers (startTimer s)
             = [timer_seq s \<mapsto> clock s + timeout_after (auto_abort_delay_ms (option s))]
         \<and> h \<noteq> timer_seq s)"
proof -
  from assms(1) have inv: "timer_inv s"
    by (simp add: timer_inv_run timer_inv_new)
  from inv assms(2) have "retired h (run es (stopTimer s))"
    by (simp add: stopTimer_retires retired_run)
  then have disarm: "step (TimerDue h) (run es (stopTimer s)) = run es (stopTimer s)"
    by (simp add: retired_timerDue_noop)
  have guard: "abortTimerAction (stopTimer s) = stopTimer s"
    by (rule abortTimerAction_disarmed) (simp add: stopTimer_def split: option.splits)
  have rearm: "step (TimerDue h) (run es (startTimer s)) = run es (startTimer s)
      \<and> abortTimer (startTimer s) = Some (timer_seq s)
      \<and> timers (startTimer s)
          = [timer_seq s \<mapsto> clock s + timeout_after (auto_abort_delay_ms (option s))]
      \<and> h \<noteq> timer_seq s"
    if delay: "auto_abort_delay_ms (option s) \<noteq> 0"
  proof -
    from inv assms(2) delay have "retired h (run es (startTimer s))"
      by (simp add: startTimer_retires retired_run)
    then have "step (TimerDue h) (run es (startTimer s)) = run es (startTimer s)"
      by (simp add: retired_timerDue_noop)
    moreover from inv assms(2) have "h \<noteq> timer_seq s"
      by (auto simp: timer_inv_def)
    ultimately show ?thesis
      using startTimer_armed [OF inv delay] by simp
  qed
  from disarm guard rearm show ?thesis
    by blast
qed

theorem stale_timeout_never_runs_witness:
  "abortTimer (run [Elapse 30000] armed) = Some 0
   \<and> timers (run [Elapse 30000] armed) 0 = Some 30000
   \<and> clock (run [Elapse 30000] armed) = 30000
   \<and> step (TimerDue 0) (run [Elapse 5] (stopTimer (run [Elapse 30000] armed)))
       = run [Elapse 5] (stopTimer (run [Elapse 30000] armed))
   \<and> abortTimer (startTimer (run [Elapse 30000] armed)) = Some 1
   \<and> timers (startTimer (run [Elapse 30000] armed)) = [1 \<mapsto> 60000]
   \<and> step (TimerDue 0) (run [Elapse 5] (startTimer (run [Elapse 30000] armed)))
       = run [Elapse 5] (startTimer (run [Elapse 30000] armed))"
proof -
  let ?es0 = "[MatchStarted, ReceivedCustomCommand 2 0 ''!abort'' '''',
       ReceivedCustomCommand 3 0 ''!abort'' '''', ReceivedCustomCommand 4 0 ''!abort'' '''',
       LobbyChanged lobby8_finishing, PlayerFinished 7 0 True 7 8, Elapse 30000]"
  let ?s = "run [Elapse 30000] armed"
  have reach: "?s = run ?es0 (new_MatchAborter lobby8 option30s)"
    by (simp add: armed_def midvote_def)
  have now: "abortTimer ?s = Some 0" "timers ?s 0 = Some 30000"
    "auto_abort_delay_ms (option ?s) \<noteq> 0" "timer_seq ?s = 1" "clock ?s = 30000"
    "timeout_after (auto_abort_delay_ms (option ?s)) = 30000"
    by (simp_all add: armed_eq option30s_def timeout_after_def TIMEOUT_MAX_def)
  from stale_timeout_never_runs [OF reach now(1), of "[Elapse 5]"] now
  show ?thesis
    by simp
qed

section \<open>MatchAborter: the number of votes required\<close>

text \<open>
  C3, as the code has it. For every number of players in game (below \<open>2 ^ 53\<close>), every
  rate in \<open>(0, 1]\<close>
  and every minimum from 0 (below \<open>2 ^ 53\<close>), the rate and the minimum are finite
  numbers \<open>d\<close> and \<open>m\<close>, the product of the size and the rate is a finite number \<open>p\<close>,
  and \<open>voteRequired\<close> is the ceiling of the larger of \<open>p\<close> and \<open>m\<close>: the least integer
  that is at least both. The product is JavaScript's, the exact product of the size and
  \<open>d\<close> rounded to a double, so that the result is the ceiling for that exact product or
  one less. With nobody in game \<open>voteRequired\<close> is still defined and is the ceiling of
  the minimum, which is the minimum itself when that is an integer.
\<close>

theorem voteRequired_formula:
  assumes "0 < vote_rate (option s)" "vote_rate (option s) \<le> 1"
    and "0 \<le> vote_min (option s)" "vote_min (option s) < 2 ^ 53"
    and "fcard (playersInGame (lobby s)) < 2 ^ 53"
  shows "\<exists>d m p.
      to_double (vote_rate (option s)) = Finite d
    \<and> to_double (vote_min (option s)) = Finite m
    \<and> js_times (set_size (playersInGame (lobby s))) (Finite d) = Finite p
    \<and> voteRequired s = Finite (of_int \<lceil>max p m\<rceil>)
    \<and> (\<forall>n. js_le (voteRequired s) (Finite (of_int n)) \<longleftrightarrow> p \<le> of_int n \<and> m \<le> of_int n)
    \<and> \<lceil>max (of_nat (fcard (playersInGame (lobby s))) * d) m\<rceil> - 1 \<le> \<lceil>max p m\<rceil>
    \<and> \<lceil>max p m\<rceil> \<le> \<lceil>max (of_nat (fcard (playersInGame (lobby s))) * d) m\<rceil>
    \<and> (playersInGame (lobby s) = {||} \<longrightarrow> voteRequired s = Finite (of_int \<lceil>m\<rceil>))
    \<and> (\<forall>k. playersInGame (lobby s) = {||} \<and> vote_min (option s) = of_int k \<longrightarrow>
          voteRequired s = Finite (of_int k))"
proof -
  let ?R = "of_nat (fcard (playersInGame (lobby s))) :: rat"
  from assms(1,2) have "0 \<le> vote_rate (option s)" "vote_rate (option s) < 2 ^ 53"
    by simp_all
  from to_double_sandwich [OF this] obtain d
    where d: "to_double (vote_rate (option s)) = Finite d"
      and d_lo: "of_int \<lfloor>vote_rate (option s)\<rfloor> \<le> d"
      and d_hi: "d \<le> of_int \<lceil>vote_rate (option s)\<rceil>"
    by blast
  from assms(1) have "0 \<le> \<lfloor>vote_rate (option s)\<rfloor>"
    by simp
  with d_lo have d0: "0 \<le> d"
    by (meson of_int_0_le_iff order_trans)
  from assms(2) have "\<lceil>vote_rate (option s)\<rceil> \<le> 1"
    by (simp add: ceiling_le_iff)
  then have "(of_int \<lceil>vote_rate (option s)\<rceil> :: rat) \<le> 1"
    by (metis of_int_le_iff of_int_1)
  with d_hi have d1: "d \<le> 1"
    by (rule order_trans)
  from to_double_sandwich [OF assms(3,4)] obtain m
    where m: "to_double (vote_min (option s)) = Finite m"
      and m_lo: "of_int \<lfloor>vote_min (option s)\<rfloor> \<le> m"
      and m_hi: "m \<le> of_int \<lceil>vote_min (option s)\<rceil>"
    by blast
  have R0: "0 \<le> ?R"
    by simp
  from assms(5) have R53: "?R < 2 ^ 53"
    by (metis of_nat_less_iff of_nat_numeral of_nat_power)
  from R0 d0 have x0: "0 \<le> ?R * d"
    by simp
  from R0 d1 have "?R * d \<le> ?R * 1"
    by (rule mult_left_mono [rotated])
  with R53 have x53: "?R * d < 2 ^ 53"
    by simp
  from to_double_sandwich [OF x0 x53] obtain p
    where p: "to_double (?R * d) = Finite p"
      and p_lo: "of_int \<lfloor>?R * d\<rfloor> \<le> p" and p_hi: "p \<le> of_int \<lceil>?R * d\<rceil>"
    by blast
  have product: "js_times (set_size (playersInGame (lobby s))) (Finite d) = Finite p"
    by (simp add: js_times_size p)
  have formula: "voteRequired s = Finite (of_int \<lceil>max p m\<rceil>)"
    by (simp add: voteRequired_def d m product Math_max_Finite)
  have least: "js_le (voteRequired s) (Finite (of_int n)) \<longleftrightarrow> p \<le> of_int n \<and> m \<le> of_int n"
    for n
    by (simp add: formula ceiling_le_iff)
  from ceiling_within_one [OF p_lo p_hi]
  have near: "\<lceil>?R * d\<rceil> - 1 \<le> \<lceil>p\<rceil>" "\<lceil>p\<rceil> \<le> \<lceil>?R * d\<rceil>"
    by simp_all
  have ceiling_max: "\<lceil>max a b\<rceil> = max \<lceil>a\<rceil> \<lceil>b\<rceil>" for a b :: rat
    by (simp add: max_def ceiling_mono antisym)
  from near have within: "\<lceil>max (?R * d) m\<rceil> - 1 \<le> \<lceil>max p m\<rceil>"
    "\<lceil>max p m\<rceil> \<le> \<lceil>max (?R * d) m\<rceil>"
    unfolding ceiling_max by linarith+
  have m0: "0 \<le> m"
  proof -
    from assms(3) have "0 \<le> \<lfloor>vote_min (option s)\<rfloor>"
      by simp
    with m_lo show ?thesis
      by (meson of_int_0_le_iff order_trans)
  qed
  have empty: "voteRequired s = Finite (of_int \<lceil>m\<rceil>)" if "playersInGame (lobby s) = {||}"
  proof -
    from that p have "p = 0"
      by (simp add: fcard_fempty to_double_def)
    with m0 formula show ?thesis
      by (simp add: max_def)
  qed
  have integer: "voteRequired s = Finite (of_int k)"
    if "playersInGame (lobby s) = {||}" "vote_min (option s) = of_int k" for k
  proof -
    from that(2) m_lo m_hi have "m = of_int k"
      by simp
    with empty [OF that(1)] show ?thesis
      by simp
  qed
  from d m product formula least within empty integer show ?thesis
    by blast
qed

theorem voteRequired_formula_witness:
  "voteRequired (new_MatchAborter lobby8 option30s) = Finite 4
   \<and> voteRequired (new_MatchAborter lobby_deserted option30s) = Finite 2
   \<and> voteRequired crowded = Finite 8"
proof -
  let ?s = "new_MatchAborter lobby8 option30s"
  let ?e = "new_MatchAborter lobby_deserted option30s"
  have known: "to_double (vote_rate (option ?s)) = Finite (1 / 2)"
    "to_double (vote_min (option ?s)) = Finite 2"
    "to_double (vote_rate (option crowded)) = Finite (5044031582654956 / 2 ^ 54)"
    "to_double (vote_min (option crowded)) = Finite 0"
    by (simp_all add: crowded_eq new_MatchAborter_def option30s_def option28_def
        double_of_examples)
  have sizes: "fcard (playersInGame (lobby ?s)) = 8" "fcard (playersInGame (lobby ?e)) = 0"
    "fcard (playersInGame (lobby crowded)) = 25"
    by (simp_all add: crowded_eq new_MatchAborter_def lobby8_def lobby_deserted_def
        lobby25_def fcard.rep_eq)
  have products: "js_times (set_size (playersInGame (lobby ?s))) (Finite (1 / 2)) = Finite 4"
    "js_times (set_size (playersInGame (lobby crowded))) (Finite (5044031582654956 / 2 ^ 54))
       = Finite (7881299347898369 / 2 ^ 50)"
    by (simp_all add: js_times_size sizes double_defs)
  have range8: "0 < vote_rate (option ?s)" "vote_rate (option ?s) \<le> 1"
    "0 \<le> vote_min (option ?s)" "vote_min (option ?s) < 2 ^ 53"
    "fcard (playersInGame (lobby ?s)) < 2 ^ 53"
    by (simp_all add: sizes) (simp_all add: new_MatchAborter_def option30s_def)
  have range0: "0 < vote_rate (option ?e)" "vote_rate (option ?e) \<le> 1"
    "0 \<le> vote_min (option ?e)" "vote_min (option ?e) < 2 ^ 53"
    "fcard (playersInGame (lobby ?e)) < 2 ^ 53"
    "playersInGame (lobby ?e) = {||}" "vote_min (option ?e) = of_int 2"
    by (simp_all add: sizes) (simp_all add: new_MatchAborter_def option30s_def lobby_deserted_def)
  have range25: "0 < vote_rate (option crowded)" "vote_rate (option crowded) \<le> 1"
    "0 \<le> vote_min (option crowded)" "vote_min (option crowded) < 2 ^ 53"
    "fcard (playersInGame (lobby crowded)) < 2 ^ 53"
    by (simp_all add: sizes) (simp_all add: crowded_eq option28_def)
  have eight: "voteRequired ?s = Finite 4"
  proof -
    from voteRequired_formula [OF range8] obtain d m p
      where f: "to_double (vote_rate (option ?s)) = Finite d"
        "to_double (vote_min (option ?s)) = Finite m"
        "js_times (set_size (playersInGame (lobby ?s))) (Finite d) = Finite p"
        "voteRequired ?s = Finite (of_int \<lceil>max p m\<rceil>)"
      by blast
    from f(1) known(1) have "d = 1 / 2"
      by simp
    with f(3) products(1) have p: "p = 4"
      by simp
    from f(2) known(2) have m: "m = 2"
      by simp
    have "\<lceil>max p m\<rceil> = 4"
      unfolding p m by simp
    with f(4) show ?thesis
      by simp
  qed
  have none: "voteRequired ?e = Finite 2"
  proof -
    from voteRequired_formula [OF range0(1-5)] obtain d m p
      where "\<forall>k. playersInGame (lobby ?e) = {||} \<and> vote_min (option ?e) = of_int k \<longrightarrow>
          voteRequired ?e = Finite (of_int k)"
      by blast
    with range0(6,7) have "voteRequired ?e = Finite (of_int 2)"
      by blast
    then show ?thesis
      by simp
  qed
  have many: "voteRequired crowded = Finite 8"
  proof -
    from voteRequired_formula [OF range25] obtain d m p
      where f: "to_double (vote_rate (option crowded)) = Finite d"
        "to_double (vote_min (option crowded)) = Finite m"
        "js_times (set_size (playersInGame (lobby crowded))) (Finite d) = Finite p"
        "voteRequired crowded = Finite (of_int \<lceil>max p m\<rceil>)"
      by blast
    from f(1) known(3) have "d = 5044031582654956 / 2 ^ 54"
      by simp
    with f(3) products(2) have p: "p = 7881299347898369 / 2 ^ 50"
      by simp
    from f(2) known(4) have m: "m = 0"
      by simp
    have "\<lceil>max p m\<rceil> = 8"
      unfolding p m by simp
    with f(4) show ?thesis
      by simp
  qed
  from eight none many show ?thesis
    by blast
qed

text \<open>
  C3 as stated fails, since the product is rounded. With 25 in game and a rate of 0.28
  \<open>voteRequired\<close> is 8, where the ceiling of 25 times 0.28 is 7. With 10 in game and a
  rate of 0.1, which as a number is a little more than a tenth, \<open>voteRequired\<close> is 1,
  where the ceiling of 10 times that number is 2.
\<close>

theorem voteRequired_exact_counterexample:
  "voteRequired crowded = Finite 8
   \<and> \<lceil>max (of_nat (fcard (playersInGame (lobby crowded))) * vote_rate (option crowded))
          (vote_min (option crowded))\<rceil> = 7
   \<and> to_double (vote_rate (option tenth)) = Finite (3602879701896397 / 2 ^ 55)
   \<and> voteRequired tenth = Finite 1
   \<and> \<lceil>max (of_nat (fcard (playersInGame (lobby tenth))) * (3602879701896397 / 2 ^ 55))
          (vote_min (option tenth))\<rceil> = 2"
proof -
  have sizes: "fcard (playersInGame (lobby crowded)) = 25"
    "fcard (playersInGame (lobby tenth)) = 10"
    by (simp_all add: crowded_eq tenth_eq lobby25_def lobby10_def fcard.rep_eq)
  have policy: "vote_rate (option crowded) = 28 / 100" "vote_min (option crowded) = 0"
    "vote_rate (option tenth) = 1 / 10" "vote_min (option tenth) = 0"
    by (simp_all add: crowded_eq tenth_eq option28_def option10_def)
  have numbers: "to_double (28 / 100) = Finite (5044031582654956 / 2 ^ 54)"
    "to_double (1 / 10) = Finite (3602879701896397 / 2 ^ 55)"
    "to_double 0 = Finite 0"
    "to_double (25 * (5044031582654956 / 2 ^ 54)) = Finite (7881299347898369 / 2 ^ 50)"
    "to_double (10 * (3602879701896397 / 2 ^ 55)) = Finite 1"
    by (simp_all add: double_defs)
  have "voteRequired crowded
      = Math_ceil (Math_max (to_double (25 * (5044031582654956 / 2 ^ 54))) (Finite 0))"
    unfolding voteRequired_def policy numbers(1,3) js_times_size sizes by simp
  also have "\<dots> = Finite 8"
    unfolding numbers(4) Math_max_Finite by simp
  finally have many: "voteRequired crowded = Finite 8" .
  have "voteRequired tenth
      = Math_ceil (Math_max (to_double (10 * (3602879701896397 / 2 ^ 55))) (Finite 0))"
    unfolding voteRequired_def policy numbers(2,3) js_times_size sizes by simp
  also have "\<dots> = Finite 1"
    unfolding numbers(5) Math_max_Finite by simp
  finally have few: "voteRequired tenth = Finite 1" .
  have exact: "\<lceil>max (of_nat (fcard (playersInGame (lobby crowded))) * vote_rate (option crowded))
          (vote_min (option crowded))\<rceil> = 7"
    "\<lceil>max (of_nat (fcard (playersInGame (lobby tenth))) * (3602879701896397 / 2 ^ 55))
          (vote_min (option tenth))\<rceil> = 2"
    unfolding sizes policy by simp_all
  have "to_double (vote_rate (option tenth)) = Finite (3602879701896397 / 2 ^ 55)"
    unfolding policy by (rule numbers(2))
  with many few exact show ?thesis
    by blast
qed

section \<open>MatchAborter: progress signals\<close>

text \<open>
  C4, as the code has it. When the configured delay is 0 a progress signal changes nothing
  at all, whether or not enough players have finished: no timer is started and
  \<open>AbortMatch\<close> is not called.
\<close>

theorem zero_delay_progress_noop:
  "auto_abort_delay_ms (option s) = 0 \<Longrightarrow>
   onPlayerFinished p score isPassed nFinished nInGame s = s"
  by (simp add: onPlayerFinished_def checkAutoAbort_def startTimer_def)

theorem zero_delay_progress_noop_witness:
  "auto_abort_delay_ms (option nodelay) = 0 \<and> onPlayerFinished 7 0 True 7 8 nodelay = nodelay"
proof -
  have "auto_abort_delay_ms (option nodelay) = 0"
    by (simp add: nodelay_eq option_nodelay_def)
  with zero_delay_progress_noop [of nodelay 7 0 True 7 8] show ?thesis
    by simp
qed

text \<open>
  C4 as stated fails: seven of eight have finished, which meets the condition, the delay
  is 0, and the progress signal leaves the list of calls as it was, with no \<open>AbortMatch\<close>
  in it.
\<close>

theorem zero_delay_no_abort_counterexample:
  "js_le (autoAbortRequired nodelay) (set_size (playersFinished (lobby nodelay)))
   \<and> auto_abort_delay_ms (option nodelay) = 0
   \<and> calls (onPlayerFinished 7 0 True 7 8 nodelay) = calls nodelay
   \<and> AbortMatch \<notin> set (calls (onPlayerFinished 7 0 True 7 8 nodelay))"
  by (simp add: nodelay_eq votes1_def eval_defs)




section \<open>MatchAborter: a player leaves\<close>



section \<open>MatchAborter: the match finishes\<close>

text \<open>
  C7, as the code has it. On match-finished the timer is stopped: the handle is forgotten
  and its timeout is no longer pending. The votes, the calls made on the lobby and the
  lobby itself are left as they are.
\<close>

theorem match_finished_effect:
  "abortTimer (onMatchFinished s) = None
   \<and> timers (onMatchFinished s) = (\<lambda>h. if abortTimer s = Some h then None else timers s h)
   \<and> voting (onMatchFinished s) = voting s
   \<and> calls (onMatchFinished s) = calls s
   \<and> lobby (onMatchFinished s) = lobby s"
  by (simp add: onMatchFinished_def stopTimer_fields stopTimer_timers fun_eq_iff)

theorem match_finished_effect_witness:
  "abortTimer armed = Some 0 \<and> timers armed 0 = Some 30000
   \<and> abortTimer (onMatchFinished armed) = None
   \<and> timers (onMatchFinished armed) 0 = None
   \<and> voteSet (voting (onMatchFinished armed)) = {|4, 3, 2|}"
proof -
  have "abortTimer armed = Some 0" "timers armed 0 = Some 30000"
    "voteSet (voting armed) = {|4, 3, 2|}"
    by (simp_all add: armed_eq votes3_def votes1_def)
  with match_finished_effect [of armed] show ?thesis
    by simp
qed

text \<open>
  C7 as stated fails: with two votes in, the match finishes and both votes are still
  there afterwards.
\<close>

theorem match_finished_keeps_votes_counterexample:
  "voteSet (voting (onMatchFinished midvote)) = {|3, 2|}
   \<and> voteSet (voting (onMatchFinished midvote)) \<noteq> {||}"
  by (simp add: midvote_eq votes2_def votes1_def eval_defs)

section \<open>MatchAborter: a running timer is left alone\<close>

text \<open>
  C10. While a timer is running (the handle is not null), \<open>checkAutoAbort\<close> changes
  nothing, and so does a progress signal and any sequence of progress signals: the handle,
  the pending timeout and its due time stay as they were set.
\<close>

theorem armed_watchdog_not_rearmed:
  "abortTimer s \<noteq> None \<Longrightarrow>
   checkAutoAbort s = s
   \<and> onPlayerFinished p score isPassed nFinished nInGame s = s
   \<and> run (map (\<lambda>(p, score, isPassed, nFinished, nInGame).
                PlayerFinished p score isPassed nFinished nInGame) sigs) s = s"
  by (simp add: onPlayerFinished_def checkAutoAbort_armed progress_run_armed)

theorem armed_watchdog_not_rearmed_witness:
  "abortTimer armed \<noteq> None
   \<and> js_le (autoAbortRequired armed) (set_size (playersFinished (lobby armed)))
   \<and> run [PlayerFinished 7 0 True 7 8, PlayerFinished 8 0 True 8 8] armed = armed
   \<and> timers armed 0 = Some 30000"
proof -
  have a: "abortTimer armed \<noteq> None"
    by (simp add: armed_eq)
  have b: "js_le (autoAbortRequired armed) (set_size (playersFinished (lobby armed)))"
    "timers armed 0 = Some 30000"
    by (simp_all add: armed_eq eval_defs)
  from armed_watchdog_not_rearmed [OF a, of 7 0 True 7 8 "[(7, 0, True, 7, 8), (8, 0, True, 8, 8)]"]
  have "run (map (\<lambda>(p, score, isPassed, nFinished, nInGame).
                PlayerFinished p score isPassed nFinished nInGame)
         [(7, 0, True, 7, 8), (8, 0, True, 8, 8)]) armed = armed"
    by blast
  then have "run [PlayerFinished 7 0 True 7 8, PlayerFinished 8 0 True 8 8] armed = armed"
    by (simp del: run.simps)
  with a b show ?thesis
    by simp
qed

end
